theory Spec2Isabelle
  imports Main
begin

section \<open>Go strings: bytes, UTF-8 decoding, Split and TrimSpace\<close>

text \<open>
  A Go string is a sequence of bytes; \<open>string\<close> (a list of 8-bit \<open>char\<close>) is the same
  thing. The resolver uses \<open>strings.Split\<close> and \<open>strings.TrimSpace\<close> of the standard
  library; they are written out here as the library documents them. \<open>TrimSpace\<close> removes
  leading and trailing white space "as defined by Unicode", so it decodes UTF-8.
\<close>

definition byte :: "char \<Rightarrow> nat" where
  "byte c = of_char c"

definition RuneError :: nat where
  "RuneError = 0xFFFD"

text \<open>
  The table \<open>first\<close> of package \<open>utf8\<close>: for a lead byte, the length of the sequence and
  the range accepted for its second byte. \<open>None\<close> is the entry \<open>xx\<close> (not a lead byte).
  ASCII bytes are handled before the table is consulted.
\<close>

definition lead :: "nat \<Rightarrow> (nat \<times> nat \<times> nat) option" where
  "lead b =
     (if 0xC2 \<le> b \<and> b \<le> 0xDF then Some (2, 0x80, 0xBF)
      else if b = 0xE0 then Some (3, 0xA0, 0xBF)
      else if b = 0xED then Some (3, 0x80, 0x9F)
      else if 0xE1 \<le> b \<and> b \<le> 0xEF then Some (3, 0x80, 0xBF)
      else if b = 0xF0 then Some (4, 0x90, 0xBF)
      else if 0xF1 \<le> b \<and> b \<le> 0xF3 then Some (4, 0x80, 0xBF)
      else if b = 0xF4 then Some (4, 0x80, 0x8F)
      else None)"

text \<open>
  \<open>utf8.DecodeRuneInString\<close>: the first rune of the string and its width in bytes;
  \<open>(RuneError, 0)\<close> for the empty string and \<open>(RuneError, 1)\<close> for an invalid encoding.
\<close>

fun DecodeRuneInString :: "string \<Rightarrow> nat \<times> nat" where
  "DecodeRuneInString [] = (RuneError, 0)"
| "DecodeRuneInString (c0 # cs) =
     (let s0 = byte c0 in
      if s0 < 0x80 then (s0, 1)
      else
        (case lead s0 of
           None \<Rightarrow> (RuneError, 1)
         | Some (sz, lo, hi) \<Rightarrow>
             if length cs + 1 < sz then (RuneError, 1)
             else
               (let s1 = byte (cs ! 0) in
                if s1 < lo \<or> hi < s1 then (RuneError, 1)
                else if sz \<le> 2 then ((s0 mod 0x20) * 0x40 + s1 mod 0x40, 2)
                else
                  (let s2 = byte (cs ! 1) in
                   if s2 < 0x80 \<or> 0xBF < s2 then (RuneError, 1)
                   else if sz \<le> 3
                     then ((s0 mod 0x10) * 0x1000 + (s1 mod 0x40) * 0x40 + s2 mod 0x40, 3)
                   else
                     (let s3 = byte (cs ! 2) in
                      if s3 < 0x80 \<or> 0xBF < s3 then (RuneError, 1)
                      else ((s0 mod 8) * 0x40000 + (s1 mod 0x40) * 0x1000
                              + (s2 mod 0x40) * 0x40 + s3 mod 0x40, 4))))))"

text \<open>\<open>utf8.RuneStart\<close>: the byte is not a continuation byte.\<close>

definition RuneStart :: "nat \<Rightarrow> bool" where
  "RuneStart b \<longleftrightarrow> \<not> (0x80 \<le> b \<and> b < 0xC0)"

text \<open>
  The loop of \<open>utf8.DecodeLastRuneInString\<close> that walks back from \<open>start\<close> to the
  nearest rune start, not below \<open>lim\<close>:
  \<^verbatim>\<open>for start--; start >= lim; start-- { if RuneStart(s[start]) { break } }\<close>
\<close>

function backup :: "string \<Rightarrow> int \<Rightarrow> int \<Rightarrow> int" where
  "backup s start lim =
     (if lim \<le> start
      then (if RuneStart (byte (s ! nat start)) then start else backup s (start - 1) lim)
      else start)"
  by pat_completeness auto
termination
  by (relation "measure (\<lambda>(s, start, lim). nat (start - lim + 1))") auto

declare backup.simps [simp del]

text \<open>\<open>utf8.DecodeLastRuneInString\<close>: the last rune of the string and its width.\<close>

definition DecodeLastRuneInString :: "string \<Rightarrow> nat \<times> nat" where
  "DecodeLastRuneInString s =
     (let end = int (length s) in
      if end = 0 then (RuneError, 0)
      else
        (let r = byte (s ! nat (end - 1)) in
         if r < 0x80 then (r, 1)
         else
           (let lim = max 0 (end - 4);
                start = max 0 (backup s (end - 2) lim);
                (r', size) = DecodeRuneInString (drop (nat start) s)
            in if start + int size \<noteq> end then (RuneError, 1) else (r', size))))"

text \<open>\<open>unicode.IsSpace\<close>: the runes with Unicode's White Space property.\<close>

definition IsSpace :: "nat \<Rightarrow> bool" where
  "IsSpace r \<longleftrightarrow>
     (0x09 \<le> r \<and> r \<le> 0x0D) \<or> r = 0x20 \<or> r = 0x85 \<or> r = 0xA0 \<or> r = 0x1680
     \<or> (0x2000 \<le> r \<and> r \<le> 0x200A) \<or> r = 0x2028 \<or> r = 0x2029 \<or> r = 0x202F
     \<or> r = 0x205F \<or> r = 0x3000"

text \<open>
  \<open>strings.TrimLeftFunc(s, unicode.IsSpace)\<close>: drop runes from the front while they are
  white space.
\<close>

function TrimLeftSpace :: "string \<Rightarrow> string" where
  "TrimLeftSpace s =
     (if s = [] then []
      else
        (let (r, size) = DecodeRuneInString s in
         if IsSpace r then TrimLeftSpace (drop size s) else s))"
  by pat_completeness auto

lemma DecodeRuneInString_width:
  "s \<noteq> [] \<Longrightarrow> 1 \<le> snd (DecodeRuneInString s) \<and> snd (DecodeRuneInString s) \<le> 4"
  by (cases s) (auto simp: Let_def split: option.split)

termination TrimLeftSpace
proof (relation "measure length")
  show "wf (measure length)" by simp
next
  fix s :: string and x :: "nat \<times> nat" and r size :: nat
  assume ne: "s \<noteq> []" and x: "x = DecodeRuneInString s" and rs: "(r, size) = x"
  from DecodeRuneInString_width [OF ne] x rs have "1 \<le> size" by (metis snd_conv)
  with ne show "(drop size s, s) \<in> measure length" by (cases s) auto
qed

declare TrimLeftSpace.simps [simp del]

text \<open>
  \<open>strings.TrimRightFunc(s, unicode.IsSpace)\<close>: drop runes from the back while they are
  white space. The library finds the start of the last rune that is not white space with
  \<open>DecodeLastRuneInString\<close> and cuts behind that rune.
\<close>

function TrimRightSpace :: "string \<Rightarrow> string" where
  "TrimRightSpace s =
     (if s = [] then []
      else
        (let (r, size) = DecodeLastRuneInString s in
         if IsSpace r then TrimRightSpace (take (length s - size) s) else s))"
  by pat_completeness auto

lemma backup_le: "backup s start lim \<le> start"
proof (induction s start lim rule: backup.induct)
  case (1 s start lim)
  show ?case
  proof (cases "lim \<le> start \<and> \<not> RuneStart (byte (s ! nat start))")
    case True
    with 1 have "backup s (start - 1) lim \<le> start - 1" by simp
    moreover from True have "backup s start lim = backup s (start - 1) lim"
      by (subst backup.simps) simp
    ultimately show ?thesis by simp
  next
    case False
    then have "backup s start lim = start"
      by (subst backup.simps) auto
    then show ?thesis by simp
  qed
qed

lemma DecodeLastRuneInString_cases:
  assumes "s \<noteq> []"
  obtains (ascii) "byte (last s) < 0x80" "DecodeLastRuneInString s = (byte (last s), 1)"
  | (invalid) "0x80 \<le> byte (last s)" "DecodeLastRuneInString s = (RuneError, 1)"
  | (rune) start where "0x80 \<le> byte (last s)" "start < length s"
      "DecodeLastRuneInString s = DecodeRuneInString (drop start s)"
      "start + snd (DecodeRuneInString (drop start s)) = length s"
proof -
  define e where "e = int (length s)"
  define start where "start = max 0 (backup s (e - 2) (max 0 (e - 4)))"
  from assms have e: "1 \<le> e" by (cases s) (simp_all add: e_def)
  have "backup s (e - 2) (max 0 (e - 4)) \<le> e - 2" by (rule backup_le)
  with e have st: "0 \<le> start" "start < e" by (simp_all add: start_def)
  have "nat (int (length s) - 1) = length s - 1" by simp
  with assms have l: "s ! nat (e - 1) = last s"
    by (simp add: e_def last_conv_nth)
  obtain r' size where d: "DecodeRuneInString (drop (nat start) s) = (r', size)"
    by (cases "DecodeRuneInString (drop (nat start) s)")
  have unf: "DecodeLastRuneInString s =
      (if byte (last s) < 0x80 then (byte (last s), 1)
       else if start + int size \<noteq> e then (RuneError, 1) else (r', size))"
    using e d l unfolding DecodeLastRuneInString_def e_def [symmetric] Let_def start_def [symmetric]
    by simp
  show thesis
  proof (cases "byte (last s) < 0x80")
    case True
    with unf show thesis by (intro ascii) simp_all
  next
    case hi: False
    show thesis
    proof (cases "start + int size = e")
      case False
      with unf hi show thesis by (intro invalid) simp_all
    next
      case True
      show thesis
      proof (rule rune [of "nat start"])
        show "0x80 \<le> byte (last s)" using hi by simp
        show "nat start < length s" using st by (simp add: e_def)
        show "DecodeLastRuneInString s = DecodeRuneInString (drop (nat start) s)"
          using unf hi True d by simp
        show "nat start + snd (DecodeRuneInString (drop (nat start) s)) = length s"
          using True d st by (simp add: e_def)
      qed
    qed
  qed
qed

lemma DecodeLastRuneInString_width:
  assumes "s \<noteq> []"
  shows "1 \<le> snd (DecodeLastRuneInString s)"
  using assms by (cases s rule: DecodeLastRuneInString_cases) auto

termination TrimRightSpace
proof (relation "measure length")
  show "wf (measure length)" by simp
next
  fix s :: string and x :: "nat \<times> nat" and r size :: nat
  assume ne: "s \<noteq> []" and x: "x = DecodeLastRuneInString s" and rs: "(r, size) = x"
  from DecodeLastRuneInString_width [OF ne] x rs have "1 \<le> size" by (metis snd_conv)
  with ne show "(take (length s - size) s, s) \<in> measure length" by (cases s) auto
qed

declare TrimRightSpace.simps [simp del]

text \<open>\<open>strings.TrimSpace\<close>: leading white space is removed first, then trailing.\<close>

definition TrimSpace :: "string \<Rightarrow> string" where
  "TrimSpace s = TrimRightSpace (TrimLeftSpace s)"

text \<open>
  \<open>strings.Split(s, sep)\<close> for a separator of one byte: the pieces between the
  separators, in order; a string without separator is its only piece, so the empty
  string splits into one empty piece. The library cuts at the first separator
  (\<open>Index\<close>) and goes on with the rest.
\<close>

function Split :: "string \<Rightarrow> char \<Rightarrow> string list" where
  "Split s sep =
     (if sep \<in> set s
      then takeWhile (\<lambda>c. c \<noteq> sep) s # Split (drop 1 (dropWhile (\<lambda>c. c \<noteq> sep) s)) sep
      else [s])"
  by pat_completeness auto
termination
proof (relation "measure (\<lambda>(s, sep). length s)")
  show "wf (measure (\<lambda>(s, sep). length s))" by simp
next
  fix s :: string and sep :: char
  assume "sep \<in> set s"
  then have "dropWhile (\<lambda>c. c \<noteq> sep) s \<noteq> []" by simp
  then have "length (drop 1 (dropWhile (\<lambda>c. c \<noteq> sep) s)) < length (dropWhile (\<lambda>c. c \<noteq> sep) s)"
    by simp
  also have "\<dots> \<le> length s" by (rule length_dropWhile_le)
  finally show "((drop 1 (dropWhile (\<lambda>c. c \<noteq> sep) s), sep), (s, sep))
      \<in> measure (\<lambda>(s, sep). length s)" by simp
qed

declare Split.simps [simp del]

section \<open>The static resolver\<close>

text \<open>
  \<open>resolver.Address\<close> and \<open>resolver.State\<close>, with the fields the builder sets.
\<close>

record Address =
  Addr :: string

record State =
  Addresses :: "Address list"

text \<open>
  \<open>resolver.ClientConn\<close> is an interface of the RPC library; the builder only calls its
  \<open>UpdateState\<close>, which takes a state and returns an error or nil. The connection is
  modelled by what the resolver can observe and cause: \<open>updates\<close> records every state
  handed to \<open>UpdateState\<close>, oldest first, and \<open>UpdateState_err\<close> is the answer the
  connection gives for a state (\<open>None\<close> is nil).
\<close>

record ClientConn =
  updates :: "State list"
  UpdateState_err :: "State \<Rightarrow> string option"

definition UpdateState :: "ClientConn \<Rightarrow> State \<Rightarrow> string option \<times> ClientConn" where
  "UpdateState cc st = (UpdateState_err cc st, cc\<lparr>updates := updates cc @ [st]\<rparr>)"

text \<open>
  The three errors \<open>Build\<close> returns, one constructor per \<open>fmt.Errorf\<close> of the source:
  "empty endpoint in target", "no valid addresses in" (with the endpoint) and
  "update state" (with the connection's error).
\<close>

datatype build_error =
  EmptyEndpoint
| NoValidAddresses string
| UpdateStateFailed string

text \<open>
  The specification's error class \<open>InvalidTarget\<close> (malformed or empty endpoint) covers
  the first two.
\<close>

fun InvalidTarget :: "build_error \<Rightarrow> bool" where
  "InvalidTarget EmptyEndpoint = True"
| "InvalidTarget (NoValidAddresses e) = True"
| "InvalidTarget (UpdateStateFailed e) = False"

text \<open>\<open>staticResolver\<close> is an empty struct.\<close>

datatype staticResolver = staticResolver

text \<open>
  The loop of \<open>Build\<close> over the pieces of the endpoint:
  \<^verbatim>\<open>for _, h := range hosts { h = strings.TrimSpace(h); if h == "" { continue };
  addrs = append(addrs, resolver.Address{Addr: h}) }\<close>
\<close>

fun collect :: "string list \<Rightarrow> Address list \<Rightarrow> Address list" where
  "collect [] addrs = addrs"
| "collect (h # hosts) addrs =
     (let h' = TrimSpace h in
      if h' = [] then collect hosts addrs
      else collect hosts (addrs @ [\<lparr>Addr = h'\<rparr>]))"

text \<open>
  \<open>staticResolverBuilder.Build\<close>, as a function of \<open>target.Endpoint()\<close> and the
  connection; it returns the resolver or the error, and the connection as it leaves it.
  The log line is not modelled.
\<close>

definition Build :: "string \<Rightarrow> ClientConn \<Rightarrow> (build_error + staticResolver) \<times> ClientConn" where
  "Build endpoint cc =
     (if endpoint = [] then (Inl EmptyEndpoint, cc)
      else
        (let hosts = Split endpoint (CHR '','');
             addrs = collect hosts []
         in if length addrs = 0 then (Inl (NoValidAddresses endpoint), cc)
            else
              (case UpdateState cc \<lparr>Addresses = addrs\<rparr> of
                 (Some err, cc') \<Rightarrow> (Inl (UpdateStateFailed err), cc')
               | (None, cc') \<Rightarrow> (Inr staticResolver, cc'))))"

text \<open>
  \<open>staticResolver.ResolveNow\<close> and \<open>staticResolver.Close\<close> have empty bodies: they
  return with the resolver and the connection as they were.
\<close>

definition ResolveNow :: "staticResolver \<times> ClientConn \<Rightarrow> staticResolver \<times> ClientConn" where
  "ResolveNow rc = rc"

definition Close :: "staticResolver \<times> ClientConn \<Rightarrow> staticResolver \<times> ClientConn" where
  "Close rc = rc"

text \<open>A caller's later use of the resolver: any sequence of the two calls.\<close>

datatype resolver_call = CallResolveNow | CallClose

fun call :: "resolver_call \<Rightarrow> staticResolver \<times> ClientConn \<Rightarrow> staticResolver \<times> ClientConn" where
  "call CallResolveNow rc = ResolveNow rc"
| "call CallClose rc = Close rc"

fun calls :: "resolver_call list \<Rightarrow> staticResolver \<times> ClientConn \<Rightarrow> staticResolver \<times> ClientConn" where
  "calls [] rc = rc"
| "calls (c # cs) rc = calls cs (call c rc)"

text \<open>
  The specification's words for the result: "one Address per non-empty trimmed entry,
  preserving input order". \<open>trimmed_entries\<close> follows these words, not the loop.
\<close>

definition trimmed_entries :: "string \<Rightarrow> string list" where
  "trimmed_entries endpoint =
     filter (\<lambda>h. h \<noteq> []) (map TrimSpace (Split endpoint (CHR '','')))"

text \<open>A connection that accepts every state, with nothing published yet.\<close>

definition fresh_cc :: ClientConn where
  "fresh_cc = \<lparr>updates = [], UpdateState_err = (\<lambda>st. None)\<rparr>"

section \<open>The resolver registry\<close>

text \<open>
  The builders that can stand in the registry: the two of this package, and a builder of
  the RPC library itself, known here only by the scheme it answers to (the library
  registers its own \<open>dns\<close> builder, among others, before any code of this package runs).
  \<open>periodicDNSBuilder\<close> has one field, \<open>interval\<close>, a \<open>time.Duration\<close> in nanoseconds.
\<close>

datatype builder =
  staticResolverBuilder
| periodicDNSBuilder int
| libraryBuilder string

definition StaticScheme :: string where
  "StaticScheme = ''static''"

definition Second :: int where
  "Second = 1000000000"

definition defaultReResolveInterval :: int where
  "defaultReResolveInterval = 30 * Second"

text \<open>The method \<open>Scheme\<close> of each builder.\<close>

fun Scheme :: "builder \<Rightarrow> string" where
  "Scheme staticResolverBuilder = StaticScheme"
| "Scheme (periodicDNSBuilder i) = ''dns''"
| "Scheme (libraryBuilder s) = s"

text \<open>
  The library's registry is a map from scheme to builder: \<open>resolver.Register\<close> stores a
  builder under its scheme, replacing an earlier one, and \<open>resolver.Get\<close> returns the
  builder stored under a scheme, or nil.
\<close>

type_synonym registry = "string \<rightharpoonup> builder"

definition Register :: "builder \<Rightarrow> registry \<Rightarrow> registry" where
  "Register b reg = reg(Scheme b \<mapsto> b)"

definition Get :: "registry \<Rightarrow> string \<Rightarrow> builder option" where
  "Get reg scheme = reg scheme"

text \<open>\<open>RegisterResolvers\<close>: one call of \<open>resolver.Register\<close>, and a log line.\<close>

definition RegisterResolvers :: "registry \<Rightarrow> registry" where
  "RegisterResolvers reg = Register staticResolverBuilder reg"

text \<open>The registry as the library sets it up: its own builder for \<open>dns\<close>.\<close>

definition library_registry :: registry where
  "library_registry = [''dns'' \<mapsto> libraryBuilder ''dns'']"

section \<open>The periodic DNS resolver\<close>

text \<open>
  The inner resolver is the library's DNS resolver; the wrapper only calls its
  \<open>ResolveNow\<close> and \<open>Close\<close>. It is modelled by the calls it receives, oldest first.
\<close>

datatype inner_call = InnerResolveNow | InnerClose

text \<open>Where the goroutine \<open>refreshLoop\<close> stands.\<close>

datatype loop_state =
  Spawned    \<comment> \<open>\<open>go r.refreshLoop()\<close> has run, the ticker is not yet made\<close>
| Running    \<comment> \<open>the ticker is made; the loop waits in its \<open>select\<close>\<close>
| Returned   \<comment> \<open>the loop has returned and its deferred \<open>ticker.Stop()\<close> has run\<close>

text \<open>
  \<open>PeriodicDNSResolver\<close>. Of the struct's fields, \<open>cc\<close> and \<open>target\<close> are stored by
  \<open>Build\<close> and never read; \<open>inner\<close> is \<open>inner_calls\<close>; the channel \<open>done\<close> is
  \<open>done_closed\<close> (nothing is ever sent on it, it is only closed); the \<open>sync.Once\<close> is
  \<open>once_done\<close>.
\<close>

record PeriodicDNSResolver =
  interval :: int
  inner_calls :: "inner_call list"
  done_closed :: bool
  once_done :: bool
  loop :: loop_state

text \<open>
  The panics of the code: \<open>close\<close> of a closed channel, and \<open>time.NewTicker\<close> with a
  duration that is not positive.
\<close>

datatype panic = CloseOfClosedChannel | NonPositiveInterval

text \<open>
  The resolver \<open>periodicDNSBuilder.Build\<close> returns once the inner resolver is built:
  the fields as the struct literal sets them, and the goroutine spawned.
\<close>

definition new_resolver :: "int \<Rightarrow> PeriodicDNSResolver" where
  "new_resolver i =
     \<lparr>interval = i, inner_calls = [], done_closed = False, once_done = False, loop = Spawned\<rparr>"

text \<open>
  \<open>periodicDNSBuilder.Build\<close>: the library's \<open>dns\<close> builder is looked up in the registry
  and asked to build the inner resolver; \<open>inner_err\<close> is the error it answers with
  (\<open>None\<close> is nil).
\<close>

datatype periodic_build_error = DNSResolverNotFound | DNSResolverBuild string

definition periodic_Build ::
  "int \<Rightarrow> registry \<Rightarrow> string option \<Rightarrow> periodic_build_error + PeriodicDNSResolver" where
  "periodic_Build i reg inner_err =
     (case Get reg ''dns'' of
        None \<Rightarrow> Inl DNSResolverNotFound
      | Some dnsBuilder \<Rightarrow>
          (case inner_err of
             Some err \<Rightarrow> Inl (DNSResolverBuild err)
           | None \<Rightarrow> Inr (new_resolver i)))"

text \<open>\<open>PeriodicDNSResolver.ResolveNow\<close>: the call goes to the inner resolver.\<close>

definition periodic_ResolveNow :: "PeriodicDNSResolver \<Rightarrow> PeriodicDNSResolver" where
  "periodic_ResolveNow r = r\<lparr>inner_calls := inner_calls r @ [InnerResolveNow]\<rparr>"

text \<open>
  \<open>PeriodicDNSResolver.Close\<close>: \<open>r.once.Do\<close> runs its function on the first call only;
  the function closes \<open>done\<close> (a panic if it is closed already) and closes the inner
  resolver.
\<close>

definition periodic_Close :: "PeriodicDNSResolver \<Rightarrow> panic + PeriodicDNSResolver" where
  "periodic_Close r =
     (if once_done r then Inr r
      else if done_closed r then Inl CloseOfClosedChannel
      else Inr (r\<lparr>once_done := True, done_closed := True,
                  inner_calls := inner_calls r @ [InnerClose]\<rparr>))"

text \<open>
  What can happen to a resolver: a caller's \<open>ResolveNow\<close> or \<open>Close\<close>, and the steps of
  \<open>refreshLoop\<close>: making the ticker, and one turn of the loop in which the \<open>select\<close>
  takes the ticker's case or the case of \<open>done\<close>. Which case a \<open>select\<close> takes when
  both are ready is not determined by the language, so both steps are possible then.
\<close>

datatype event = Call_ResolveNow | Call_Close | Loop_Start | Loop_Tick | Loop_Done

text \<open>
  One event. A step of the loop that cannot happen in a state (the loop is not running,
  or \<open>done\<close> is still open for \<open>Loop_Done\<close>) leaves the state as it is.
\<close>

fun step :: "event \<Rightarrow> PeriodicDNSResolver \<Rightarrow> panic + PeriodicDNSResolver" where
  "step Call_ResolveNow r = Inr (periodic_ResolveNow r)"
| "step Call_Close r = periodic_Close r"
| "step Loop_Start r =
     (if loop r = Spawned
      then (if interval r \<le> 0 then Inl NonPositiveInterval else Inr (r\<lparr>loop := Running\<rparr>))
      else Inr r)"
| "step Loop_Tick r =
     (if loop r = Running then Inr (r\<lparr>inner_calls := inner_calls r @ [InnerResolveNow]\<rparr>)
      else Inr r)"
| "step Loop_Done r =
     (if loop r = Running \<and> done_closed r then Inr (r\<lparr>loop := Returned\<rparr>) else Inr r)"

text \<open>A sequence of events; a panic ends it.\<close>

fun run :: "event list \<Rightarrow> PeriodicDNSResolver \<Rightarrow> panic + PeriodicDNSResolver" where
  "run [] r = Inr r"
| "run (e # es) r = (case step e r of Inl p \<Rightarrow> Inl p | Inr r' \<Rightarrow> run es r')"

text \<open>The events that are steps of the refresh loop, timer ticks among them.\<close>

fun loop_event :: "event \<Rightarrow> bool" where
  "loop_event Loop_Start = True"
| "loop_event Loop_Tick = True"
| "loop_event Loop_Done = True"
| "loop_event e = False"

section \<open>The health service\<close>

text \<open>
  The library's \<open>health.Server\<close>, as far as \<open>RegisterHealthServer\<close> uses it: a map from
  service name to status. \<open>health.NewServer\<close> starts it with the empty service name
  serving; \<open>SetServingStatus\<close> stores a status unless the server was shut down;
  \<open>Check\<close> answers with the status stored, or with the error \<open>NotFound\<close>.
\<close>

datatype ServingStatus = UNKNOWN | SERVING | NOT_SERVING | SERVICE_UNKNOWN

record health_Server =
  shutdown :: bool
  statusMap :: "string \<rightharpoonup> ServingStatus"

definition NewServer :: health_Server where
  "NewServer = \<lparr>shutdown = False, statusMap = [[] \<mapsto> SERVING]\<rparr>"

definition SetServingStatus :: "string \<Rightarrow> ServingStatus \<Rightarrow> health_Server \<Rightarrow> health_Server" where
  "SetServingStatus service status s =
     (if shutdown s then s else s\<lparr>statusMap := (statusMap s)(service \<mapsto> status)\<rparr>)"

datatype check_error = NotFound

definition Check :: "health_Server \<Rightarrow> string \<Rightarrow> check_error + ServingStatus" where
  "Check s service = (case statusMap s service of None \<Rightarrow> Inl NotFound | Some st \<Rightarrow> Inr st)"

text \<open>
  The library's \<open>grpc.Server\<close>, as far as registering a service goes: the names of the
  services registered, and whether \<open>Serve\<close> has been called. Registering after \<open>Serve\<close>,
  or a name twice, ends the process (\<open>Fatalf\<close>).
\<close>

record grpc_Server =
  serve :: bool
  services :: "string list"

datatype fatal = RegisterAfterServe string | DuplicateService string

definition RegisterService :: "string \<Rightarrow> grpc_Server \<Rightarrow> fatal + grpc_Server" where
  "RegisterService name srv =
     (if serve srv then Inl (RegisterAfterServe name)
      else if name \<in> set (services srv) then Inl (DuplicateService name)
      else Inr (srv\<lparr>services := services srv @ [name]\<rparr>))"

text \<open>
  \<open>RegisterHealthServer\<close>: a new health server, the two statuses set, the service
  registered on the server (under the name the generated code gives it), the health
  server returned.
\<close>

definition RegisterHealthServer :: "grpc_Server \<Rightarrow> fatal + grpc_Server \<times> health_Server" where
  "RegisterHealthServer server =
     (let healthServer = NewServer;
          healthServer = SetServingStatus [] SERVING healthServer;
          healthServer = SetServingStatus ''sharding.v1.ShardingService'' SERVING healthServer
      in case RegisterService ''grpc.health.v1.Health'' server of
           Inl f \<Rightarrow> Inl f
         | Inr server' \<Rightarrow> Inr (server', healthServer))"

section \<open>The round-robin policy\<close>

text \<open>
  Modelled from the spec: the load-balancing policy (round-robin) that picks the address
  of each call. \<open>DefaultServiceConfig\<close> only names the policy (\<open>round_robin\<close>) in the
  configuration it hands to the RPC library; the policy itself is code of that library
  and not among the sources. The definitions follow the specification's contract: the
  policy keeps a cursor over the current address set; a dispatch skips the addresses
  whose health status is \<open>NOT_SERVING\<close> or \<open>SERVICE_UNKNOWN\<close>, advances the cursor modulo
  the number of addresses left and returns the address there; it fails with
  \<open>NoAvailableEndpoint\<close> when no address is left.
\<close>

datatype dispatch_error = NoAvailableEndpoint

definition live :: "(string \<Rightarrow> ServingStatus) \<Rightarrow> string list \<Rightarrow> string list" where
  "live status addrs = filter (\<lambda>a. status a \<noteq> NOT_SERVING \<and> status a \<noteq> SERVICE_UNKNOWN) addrs"

definition dispatch ::
  "(string \<Rightarrow> ServingStatus) \<Rightarrow> string list \<Rightarrow> nat \<Rightarrow> (dispatch_error + string) \<times> nat" where
  "dispatch status addrs cursor =
     (let l = live status addrs in
      if l = [] then (Inl NoAvailableEndpoint, cursor)
      else (let cursor' = (cursor + 1) mod length l in (Inr (l ! cursor'), cursor')))"

text \<open>
  Modelled from the spec: a window of \<open>m\<close> consecutive dispatches against a stable address
  set and stable health, from a given cursor; the results in order.
\<close>

fun dispatches ::
  "nat \<Rightarrow> (string \<Rightarrow> ServingStatus) \<Rightarrow> string list \<Rightarrow> nat \<Rightarrow> (dispatch_error + string) list" where
  "dispatches 0 status addrs cursor = []"
| "dispatches (Suc m) status addrs cursor =
     (let (res, cursor') = dispatch status addrs cursor
      in res # dispatches m status addrs cursor')"

text \<open>
  How often the position \<open>i\<close> is hit when \<open>m\<close> consecutive cursor values from \<open>c\<close> on are
  taken modulo \<open>k\<close>.
\<close>

definition hits :: "nat \<Rightarrow> nat \<Rightarrow> nat \<Rightarrow> nat \<Rightarrow> nat" where
  "hits k c m i = length (filter (\<lambda>j. (c + j) mod k = i) [0..<m])"

section \<open>The service configuration and its JSON text\<close>

subsection \<open>JSON text of a Go string\<close>

text \<open>
  \<open>DefaultServiceConfig\<close> hands a map to \<open>json.Marshal\<close> of the standard library. What
  follows is the part of the encoder such a value reaches, as the library documents it:
  strings are written as JSON strings "coerced to valid UTF-8, replacing invalid bytes
  with the Unicode replacement rune", with \<open><\<close>, \<open>>\<close>, \<open>&\<close>, U+2028 and U+2029 escaped;
  maps are written as objects with their keys sorted; slices as arrays.
\<close>

definition dq :: char where
  "dq = CHR 0x22"

definition backslash :: char where
  "backslash = CHR 0x5C"

text \<open>The encoder's \<open>hex\<close>: the digit of a value below 16.\<close>

definition hex :: "nat \<Rightarrow> char" where
  "hex d = ''0123456789abcdef'' ! d"

text \<open>
  The encoder's table \<open>htmlSafeSet\<close>, for a byte below \<open>0x80\<close>: the byte is written as
  it is. Not safe are the control characters, the double quote, the backslash and
  \<open><\<close>, \<open>>\<close>, \<open>&\<close>.
\<close>

definition htmlSafeSet :: "char \<Rightarrow> bool" where
  "htmlSafeSet b \<longleftrightarrow>
     0x20 \<le> byte b \<and> b \<noteq> dq \<and> b \<noteq> backslash
     \<and> b \<noteq> CHR ''<'' \<and> b \<noteq> CHR ''>'' \<and> b \<noteq> CHR ''&''"

text \<open>The escape the encoder writes for a byte below \<open>0x80\<close> that is not safe.\<close>

definition escape_byte :: "char \<Rightarrow> string" where
  "escape_byte b =
     (if b = backslash \<or> b = dq then [backslash, b]
      else if b = CHR 0x08 then [backslash, CHR ''b'']
      else if b = CHR 0x0C then [backslash, CHR ''f'']
      else if b = CHR 0x0A then [backslash, CHR ''n'']
      else if b = CHR 0x0D then [backslash, CHR ''r'']
      else if b = CHR 0x09 then [backslash, CHR ''t'']
      else [backslash, CHR ''u'', CHR ''0'', CHR ''0'', hex (byte b div 16), hex (byte b mod 16)])"

text \<open>
  The loop of the encoder's \<open>appendString\<close> over the bytes of the string, between the two
  quotes: a safe byte is copied, an unsafe one escaped; from a byte of \<open>0x80\<close> or more a
  rune is decoded: an invalid encoding is written as the escape of U+FFFD and one byte is skipped,
  U+2028 and U+2029 are escaped, every other rune is copied.
\<close>

function appendString_body :: "string \<Rightarrow> string" where
  "appendString_body s =
     (if s = [] then []
      else if byte (hd s) < 0x80
      then (if htmlSafeSet (hd s) then [hd s] else escape_byte (hd s)) @ appendString_body (tl s)
      else
        (let (c, size) = DecodeRuneInString s in
         if c = RuneError \<and> size = 1
         then [backslash, CHR ''u'', CHR ''f'', CHR ''f'', CHR ''f'', CHR ''d'']
                @ appendString_body (drop size s)
         else if c = 0x2028 \<or> c = 0x2029
         then [backslash, CHR ''u'', CHR ''2'', CHR ''0'', CHR ''2'', hex (c mod 16)]
                @ appendString_body (drop size s)
         else take size s @ appendString_body (drop size s)))"
  by pat_completeness auto
termination
proof (relation "measure length")
  show "wf (measure length)" by simp
next
  fix s :: string
  assume "s \<noteq> []"
  then show "(tl s, s) \<in> measure length" by (cases s) simp_all
next
  fix s :: string and x :: "nat \<times> nat" and c size :: nat
  assume ne: "s \<noteq> []" and x: "x = DecodeRuneInString s" and rs: "(c, size) = x"
  from DecodeRuneInString_width [OF ne] x rs have "1 \<le> size" by (metis snd_conv)
  with ne show "(drop size s, s) \<in> measure length" by (cases s) auto
next
  fix s :: string and x :: "nat \<times> nat" and c size :: nat
  assume ne: "s \<noteq> []" and x: "x = DecodeRuneInString s" and rs: "(c, size) = x"
  from DecodeRuneInString_width [OF ne] x rs have "1 \<le> size" by (metis snd_conv)
  with ne show "(drop size s, s) \<in> measure length" by (cases s) auto
next
  fix s :: string and x :: "nat \<times> nat" and c size :: nat
  assume ne: "s \<noteq> []" and x: "x = DecodeRuneInString s" and rs: "(c, size) = x"
  from DecodeRuneInString_width [OF ne] x rs have "1 \<le> size" by (metis snd_conv)
  with ne show "(drop size s, s) \<in> measure length" by (cases s) auto
qed

declare appendString_body.simps [simp del]

definition appendString :: "string \<Rightarrow> string" where
  "appendString s = dq # appendString_body s @ [dq]"

subsection \<open>json.Marshal\<close>

text \<open>
  The values an \<open>interface{}\<close> of the configuration can hold, as far as the encoder
  tells them apart: nil, a string, a slice, a map with string keys, and the values the
  encoder refuses (a channel, a function, a complex number).
\<close>

datatype go_value =
  GoNil
| GoString string
| GoSlice "go_value list"
| GoMap "(string \<times> go_value) list"
| GoUnsupported

datatype marshal_error = UnsupportedTypeError

text \<open>The order of Go strings: bytewise.\<close>

fun string_less :: "string \<Rightarrow> string \<Rightarrow> bool" where
  "string_less [] [] = False"
| "string_less [] (y # ys) = True"
| "string_less (x # xs) [] = False"
| "string_less (x # xs) (y # ys) = (byte x < byte y \<or> (byte x = byte y \<and> string_less xs ys))"

text \<open>The encoder sorts the keys of a map: here, the encoded members by their keys.\<close>

fun insert_member :: "string \<times> string \<Rightarrow> (string \<times> string) list \<Rightarrow> (string \<times> string) list" where
  "insert_member m [] = [m]"
| "insert_member m (m' # ms) =
     (if string_less (fst m') (fst m) then m' # insert_member m ms else m # m' # ms)"

fun sort_members :: "(string \<times> string) list \<Rightarrow> (string \<times> string) list" where
  "sort_members [] = []"
| "sort_members (m # ms) = insert_member m (sort_members ms)"

text \<open>Texts joined by commas.\<close>

fun join_commas :: "string list \<Rightarrow> string" where
  "join_commas [] = []"
| "join_commas [x] = x"
| "join_commas (x # y # ys) = x @ CHR '','' # join_commas (y # ys)"

text \<open>
  \<open>json.Marshal\<close>: the text of a value, or the error for a value of a type the encoder
  refuses, anywhere inside.
\<close>

fun Marshal :: "go_value \<Rightarrow> marshal_error + string"
  and marshal_elems :: "go_value list \<Rightarrow> marshal_error + string list"
  and marshal_members :: "(string \<times> go_value) list \<Rightarrow> marshal_error + (string \<times> string) list" where
  "Marshal GoNil = Inr ''null''"
| "Marshal (GoString s) = Inr (appendString s)"
| "Marshal (GoSlice vs) =
     (case marshal_elems vs of
        Inl e \<Rightarrow> Inl e
      | Inr ts \<Rightarrow> Inr (CHR ''['' # join_commas ts @ '']''))"
| "Marshal (GoMap kvs) =
     (case marshal_members kvs of
        Inl e \<Rightarrow> Inl e
      | Inr ms \<Rightarrow>
          Inr (CHR ''{'' # join_commas (map (\<lambda>(k, t). appendString k @ CHR '':'' # t) (sort_members ms))
                 @ ''}''))"
| "Marshal GoUnsupported = Inl UnsupportedTypeError"
| "marshal_elems [] = Inr []"
| "marshal_elems (v # vs) =
     (case Marshal v of
        Inl e \<Rightarrow> Inl e
      | Inr t \<Rightarrow> (case marshal_elems vs of Inl e \<Rightarrow> Inl e | Inr ts \<Rightarrow> Inr (t # ts)))"
| "marshal_members [] = Inr []"
| "marshal_members ((k, v) # kvs) =
     (case Marshal v of
        Inl e \<Rightarrow> Inl e
      | Inr t \<Rightarrow> (case marshal_members kvs of Inl e \<Rightarrow> Inl e | Inr ms \<Rightarrow> Inr ((k, t) # ms)))"

subsection \<open>DefaultServiceConfig\<close>

text \<open>A key or another plain text between double quotes.\<close>

definition quoted :: "string \<Rightarrow> string" where
  "quoted k = dq # k @ [dq]"

text \<open>
  The string the function returns when \<open>json.Marshal\<close> fails:
  \<^verbatim>\<open>{"loadBalancingConfig":[{"round_robin":{}}]}\<close>
\<close>

definition fallback_config :: string where
  "fallback_config = ''{'' @ quoted ''loadBalancingConfig'' @ '':[{'' @ quoted ''round_robin'' @ '':{}}]}''"

text \<open>\<open>DefaultServiceConfig\<close>: the map literal, \<open>json.Marshal\<close>, and the fallback on error.\<close>

definition config :: "string \<Rightarrow> go_value" where
  "config serviceName = GoMap
     [(''loadBalancingConfig'', GoSlice [GoMap [(''round_robin'', GoMap [])]]),
      (''healthCheckConfig'', GoMap [(''serviceName'', GoString serviceName)])]"

definition DefaultServiceConfig :: "string \<Rightarrow> string" where
  "DefaultServiceConfig serviceName =
     (case Marshal (config serviceName) of
        Inl err \<Rightarrow> fallback_config
      | Inr raw \<Rightarrow> raw)"

subsection \<open>Reading JSON text\<close>

text \<open>
  What it means that a text "parses as a JSON object with a given field": a reader of
  JSON text (RFC 8259: objects, arrays, strings with their escapes, \<open>null\<close>, \<open>true\<close>,
  \<open>false\<close>; numbers are not read, the configuration has none). Strings are read the way
  Go's decoder reads them: an escape \<open>\uXXXX\<close> gives the rune's UTF-8 encoding, a pair of
  surrogate escapes one rune, and bytes that are not valid UTF-8 the replacement rune.
\<close>

datatype json =
  JNull
| JBool bool
| JString string
| JArray "json list"
| JObject "(string \<times> json) list"

definition is_ws :: "char \<Rightarrow> bool" where
  "is_ws c \<longleftrightarrow> c = CHR '' '' \<or> c = CHR 0x09 \<or> c = CHR 0x0A \<or> c = CHR 0x0D"

definition skip_ws :: "string \<Rightarrow> string" where
  "skip_ws s = dropWhile is_ws s"

definition unhex :: "char \<Rightarrow> nat option" where
  "unhex c =
     (if 0x30 \<le> byte c \<and> byte c \<le> 0x39 then Some (byte c - 0x30)
      else if 0x61 \<le> byte c \<and> byte c \<le> 0x66 then Some (byte c - 0x61 + 10)
      else if 0x41 \<le> byte c \<and> byte c \<le> 0x46 then Some (byte c - 0x41 + 10)
      else None)"

text \<open>The value of four hex digits at the front of the text.\<close>

fun hex4 :: "string \<Rightarrow> nat option" where
  "hex4 (a # b # c # d # rest) =
     (case (unhex a, unhex b, unhex c, unhex d) of
        (Some x, Some y, Some z, Some w) \<Rightarrow> Some (((x * 16 + y) * 16 + z) * 16 + w)
      | _ \<Rightarrow> None)"
| "hex4 s = None"

text \<open>\<open>utf8.EncodeRune\<close>: the UTF-8 encoding of a rune; the replacement rune's for a surrogate or a value out of range.\<close>

definition EncodeRune :: "nat \<Rightarrow> string" where
  "EncodeRune r =
     (if r < 0x80 then [char_of r]
      else if r < 0x800 then [char_of (0xC0 + r div 0x40), char_of (0x80 + r mod 0x40)]
      else if (0xD800 \<le> r \<and> r \<le> 0xDFFF) \<or> 0x10FFFF < r then [CHR 0xEF, CHR 0xBF, CHR 0xBD]
      else if r < 0x10000
      then [char_of (0xE0 + r div 0x1000), char_of (0x80 + r div 0x40 mod 0x40),
            char_of (0x80 + r mod 0x40)]
      else [char_of (0xF0 + r div 0x40000), char_of (0x80 + r div 0x1000 mod 0x40),
            char_of (0x80 + r div 0x40 mod 0x40), char_of (0x80 + r mod 0x40)])"

text \<open>The byte a one-letter escape stands for.\<close>

definition unescape :: "char \<Rightarrow> char option" where
  "unescape e =
     (if e = dq \<or> e = backslash \<or> e = CHR ''/'' then Some e
      else if e = CHR ''b'' then Some (CHR 0x08)
      else if e = CHR ''f'' then Some (CHR 0x0C)
      else if e = CHR ''n'' then Some (CHR 0x0A)
      else if e = CHR ''r'' then Some (CHR 0x0D)
      else if e = CHR ''t'' then Some (CHR 0x09)
      else None)"

text \<open>
  The rune of a high surrogate \<open>rr\<close> and the escape that follows it, if that is the
  escape of a low surrogate.
\<close>

definition surrogate_pair :: "nat \<Rightarrow> string \<Rightarrow> nat option" where
  "surrogate_pair rr s =
     (case s of
        b # u # rest \<Rightarrow>
          if b = backslash \<and> u = CHR ''u'' then
            (case hex4 rest of
               None \<Rightarrow> None
             | Some rr1 \<Rightarrow>
                 if 0xD800 \<le> rr \<and> rr < 0xDC00 \<and> 0xDC00 \<le> rr1 \<and> rr1 < 0xE000
                 then Some ((rr - 0xD800) * 0x400 + (rr1 - 0xDC00) + 0x10000)
                 else None)
          else None
      | _ \<Rightarrow> None)"

text \<open>Bytes read so far, put before the rest of a result.\<close>

definition prepend :: "string \<Rightarrow> (string \<times> string) option \<Rightarrow> (string \<times> string) option" where
  "prepend p res = (case res of None \<Rightarrow> None | Some (d, rest) \<Rightarrow> Some (p @ d, rest))"

text \<open>
  A string's text after its opening quote: the string read, and the text that follows
  the closing quote.
\<close>

function parse_string_body :: "string \<Rightarrow> (string \<times> string) option" where
  "parse_string_body s =
     (if s = [] then None
      else if hd s = dq then Some ([], tl s)
      else if hd s = backslash then
        (if tl s = [] then None
         else if hd (tl s) = CHR ''u'' then
           (case hex4 (drop 2 s) of
              None \<Rightarrow> None
            | Some rr \<Rightarrow>
                if 0xD800 \<le> rr \<and> rr \<le> 0xDFFF then
                  (case surrogate_pair rr (drop 6 s) of
                     Some dec \<Rightarrow> prepend (EncodeRune dec) (parse_string_body (drop 12 s))
                   | None \<Rightarrow> prepend (EncodeRune RuneError) (parse_string_body (drop 6 s)))
                else prepend (EncodeRune rr) (parse_string_body (drop 6 s)))
         else
           (case unescape (hd (tl s)) of
              None \<Rightarrow> None
            | Some b \<Rightarrow> prepend [b] (parse_string_body (drop 2 s))))
      else if byte (hd s) < 0x20 then None
      else if byte (hd s) < 0x80 then prepend [hd s] (parse_string_body (tl s))
      else
        (let (r, size) = DecodeRuneInString s in
         if r = RuneError \<and> size = 1
         then prepend (EncodeRune RuneError) (parse_string_body (drop 1 s))
         else prepend (take size s) (parse_string_body (drop size s))))"
  by pat_completeness auto
termination
proof (relation "measure length", goal_cases)
  case 1
  show ?case by simp
next
  case (8 s x r size)
  from DecodeRuneInString_width [of s] 8 have "1 \<le> size" by (metis snd_conv)
  with 8 show ?case by (cases s) auto
qed (auto simp: neq_Nil_conv)

declare parse_string_body.simps [simp del]

text \<open>
  A value, the elements of an array after its first bracket, the members of an object
  after its brace; each with the text that follows. The first argument bounds the number
  of nested calls.
\<close>

fun parse_value :: "nat \<Rightarrow> string \<Rightarrow> (json \<times> string) option"
  and parse_elements :: "nat \<Rightarrow> string \<Rightarrow> (json list \<times> string) option"
  and parse_members :: "nat \<Rightarrow> string \<Rightarrow> ((string \<times> json) list \<times> string) option" where
  "parse_value 0 s = None"
| "parse_value (Suc n) s =
     (case skip_ws s of
        [] \<Rightarrow> None
      | c # rest \<Rightarrow>
          if c = dq then
            (case parse_string_body rest of
               None \<Rightarrow> None
             | Some (str, rest') \<Rightarrow> Some (JString str, rest'))
          else if c = CHR ''{'' then
            (case skip_ws rest of
               [] \<Rightarrow> None
             | c' # rest' \<Rightarrow>
                 if c' = CHR ''}'' then Some (JObject [], rest')
                 else
                   (case parse_members n (c' # rest') of
                      None \<Rightarrow> None
                    | Some (ms, r) \<Rightarrow> Some (JObject ms, r)))
          else if c = CHR ''['' then
            (case skip_ws rest of
               [] \<Rightarrow> None
             | c' # rest' \<Rightarrow>
                 if c' = CHR '']'' then Some (JArray [], rest')
                 else
                   (case parse_elements n (c' # rest') of
                      None \<Rightarrow> None
                    | Some (vs, r) \<Rightarrow> Some (JArray vs, r)))
          else if take 4 (c # rest) = ''null'' then Some (JNull, drop 4 (c # rest))
          else if take 4 (c # rest) = ''true'' then Some (JBool True, drop 4 (c # rest))
          else if take 5 (c # rest) = ''false'' then Some (JBool False, drop 5 (c # rest))
          else None)"
| "parse_elements 0 s = None"
| "parse_elements (Suc n) s =
     (case parse_value n s of
        None \<Rightarrow> None
      | Some (v, rest) \<Rightarrow>
          (case skip_ws rest of
             [] \<Rightarrow> None
           | c # rest' \<Rightarrow>
               if c = CHR '','' then
                 (case parse_elements n rest' of
                    None \<Rightarrow> None
                  | Some (vs, r) \<Rightarrow> Some (v # vs, r))
               else if c = CHR '']'' then Some ([v], rest')
               else None))"
| "parse_members 0 s = None"
| "parse_members (Suc n) s =
     (case skip_ws s of
        [] \<Rightarrow> None
      | c # rest \<Rightarrow>
          if c \<noteq> dq then None
          else
            (case parse_string_body rest of
               None \<Rightarrow> None
             | Some (k, rest1) \<Rightarrow>
                 (case skip_ws rest1 of
                    [] \<Rightarrow> None
                  | c1 # rest2 \<Rightarrow>
                      if c1 \<noteq> CHR '':'' then None
                      else
                        (case parse_value n rest2 of
                           None \<Rightarrow> None
                         | Some (v, rest3) \<Rightarrow>
                             (case skip_ws rest3 of
                                [] \<Rightarrow> None
                              | c3 # rest4 \<Rightarrow>
                                  if c3 = CHR '','' then
                                    (case parse_members n rest4 of
                                       None \<Rightarrow> None
                                     | Some (ms, r) \<Rightarrow> Some ((k, v) # ms, r))
                                  else if c3 = CHR ''}'' then Some ([(k, v)], rest4)
                                  else None)))))"

text \<open>
  A whole text: one value, with nothing but white space after it. Every nested call
  reads at least one byte, so the length of the text bounds their number.
\<close>

definition parse_json :: "string \<Rightarrow> json option" where
  "parse_json s =
     (case parse_value (Suc (length s)) s of
        None \<Rightarrow> None
      | Some (v, rest) \<Rightarrow> if skip_ws rest = [] then Some v else None)"

text \<open>
  The string the encoder's coercion to valid UTF-8 makes of a string: every byte that
  does not start a valid encoding becomes the replacement rune U+FFFD, the rest stays.
\<close>

function coerce_utf8 :: "string \<Rightarrow> string" where
  "coerce_utf8 s =
     (if s = [] then []
      else
        (let (c, size) = DecodeRuneInString s in
         if c = RuneError \<and> size = 1 then EncodeRune RuneError @ coerce_utf8 (drop size s)
         else take size s @ coerce_utf8 (drop size s)))"
  by pat_completeness auto
termination
proof (relation "measure length", goal_cases)
  case 1
  show ?case by simp
next
  case (2 s x c size)
  from DecodeRuneInString_width [of s] 2 have "1 \<le> size" by (metis snd_conv)
  with 2 show ?case by (cases s) auto
next
  case (3 s x c size)
  from DecodeRuneInString_width [of s] 3 have "1 \<le> size" by (metis snd_conv)
  with 3 show ?case by (cases s) auto
qed

declare coerce_utf8.simps [simp del]

text \<open>\<open>utf8.ValidString\<close>: the string is made of valid encodings only.\<close>

function ValidString :: "string \<Rightarrow> bool" where
  "ValidString s =
     (if s = [] then True
      else
        (let (c, size) = DecodeRuneInString s in
         if c = RuneError \<and> size = 1 then False else ValidString (drop size s)))"
  by pat_completeness auto
termination
proof (relation "measure length", goal_cases)
  case 1
  show ?case by simp
next
  case (2 s x c size)
  from DecodeRuneInString_width [of s] 2 have "1 \<le> size" by (metis snd_conv)
  with 2 show ?case by (cases s) auto
qed

declare ValidString.simps [simp del]

text \<open>The value the configuration's text is expected to read as, for a service name.\<close>

definition config_json :: "string \<Rightarrow> json" where
  "config_json name =
     JObject
       [(''healthCheckConfig'', JObject [(''serviceName'', JString name)]),
        (''loadBalancingConfig'', JArray [JObject [(''round_robin'', JObject [])]])]"

section \<open>The static resolver: proofs\<close>

subsection \<open>What TrimSpace keeps\<close>

lemma lead_Some:
  "lead b = Some (sz, lo, hi) \<Longrightarrow> 0xC2 \<le> b \<and> 0x80 \<le> lo \<and> (sz = 2 \<or> sz = 3 \<or> sz = 4)"
  by (auto simp: lead_def split: if_splits)

lemma DecodeRuneInString_single:
  assumes "DecodeRuneInString (c # cs) = (r, n)" "n < 2"
  shows "n = 1 \<and> (r = byte c \<and> byte c < 0x80 \<or> r = RuneError \<and> 0x80 \<le> byte c)"
  using assms by (auto simp: Let_def split: option.splits if_splits)

lemma DecodeRuneInString_multi:
  assumes "DecodeRuneInString s = (r, n)" "2 \<le> n"
  shows "n \<le> length s \<and> (\<forall>i<n. 0x80 \<le> byte (s ! i))"
proof (cases s)
  case Nil
  with assms show ?thesis by simp
next
  case (Cons c cs)
  have idx: "\<And>i::nat. i < 4 \<longleftrightarrow> i = 0 \<or> i = 1 \<or> i = 2 \<or> i = 3" by arith
  have idx3: "\<And>i::nat. i < 3 \<longleftrightarrow> i = 0 \<or> i = 1 \<or> i = 2" by arith
  have idx2: "\<And>i::nat. i < 2 \<longleftrightarrow> i = 0 \<or> i = 1" by arith
  have len: "cs \<noteq> [] \<longleftrightarrow> Suc 0 \<le> length cs" by (cases cs) auto
  from assms Cons show ?thesis
    by (auto simp: Let_def idx idx2 idx3 len dest!: lead_Some split: option.splits if_splits)
qed

lemma DecodeRuneInString_space_prefix:
  assumes "DecodeRuneInString s = (r, n)" "IsSpace r" "x \<in> set (take n s)"
  shows "0x80 \<le> byte x \<or> IsSpace (byte x)"
proof (cases "2 \<le> n")
  case True
  from DecodeRuneInString_multi [OF assms(1) True]
  have n: "n \<le> length s" and hi: "\<forall>i<n. 0x80 \<le> byte (s ! i)" by simp_all
  from assms(3) obtain i where "i < n" "i < length s" "x = s ! i"
    by (auto simp: in_set_conv_nth)
  with hi show ?thesis by simp
next
  case False
  show ?thesis
  proof (cases s)
    case Nil
    with assms show ?thesis by simp
  next
    case (Cons c cs)
    with assms(1) False have "n = 1 \<and> (r = byte c \<and> byte c < 0x80 \<or> r = RuneError \<and> 0x80 \<le> byte c)"
      by (intro DecodeRuneInString_single [of c cs r n]) simp_all
    with assms(2,3) Cons show ?thesis by auto
  qed
qed

lemma TrimLeftSpace_keeps:
  assumes "x \<in> set s" "byte x < 0x80" "\<not> IsSpace (byte x)"
  shows "x \<in> set (TrimLeftSpace s)"
  using assms
proof (induction s rule: TrimLeftSpace.induct)
  case (1 s)
  obtain r n where d: "DecodeRuneInString s = (r, n)" by (cases "DecodeRuneInString s")
  from 1(2) have ne: "s \<noteq> []" by auto
  show ?case
  proof (cases "IsSpace r")
    case False
    with d ne have "TrimLeftSpace s = s" by (subst TrimLeftSpace.simps) simp
    with 1(2) show ?thesis by simp
  next
    case True
    with d ne have eq: "TrimLeftSpace s = TrimLeftSpace (drop n s)"
      by (subst TrimLeftSpace.simps) simp
    have "x \<notin> set (take n s)"
      using DecodeRuneInString_space_prefix [OF d True] 1(3,4) by force
    moreover have "set s = set (take n s) \<union> set (drop n s)"
      by (metis append_take_drop_id set_append)
    ultimately have "x \<in> set (drop n s)" using 1(2) by simp
    with 1(1) [OF ne d [symmetric] refl True] 1(3,4) eq show ?thesis by simp
  qed
qed

lemma TrimRightSpace_keeps:
  assumes "x \<in> set s" "byte x < 0x80" "\<not> IsSpace (byte x)"
  shows "x \<in> set (TrimRightSpace s)"
  using assms
proof (induction s rule: TrimRightSpace.induct)
  case (1 s)
  obtain r n where d: "DecodeLastRuneInString s = (r, n)" by (cases "DecodeLastRuneInString s")
  from 1(2) have ne: "s \<noteq> []" by auto
  show ?case
  proof (cases "IsSpace r")
    case False
    with d ne have "TrimRightSpace s = s" by (subst TrimRightSpace.simps) simp
    with 1(2) show ?thesis by simp
  next
    case True
    with d ne have eq: "TrimRightSpace s = TrimRightSpace (take (length s - n) s)"
      by (subst TrimRightSpace.simps) simp
    have "x \<notin> set (drop (length s - n) s)"
      using ne
    proof (cases rule: DecodeLastRuneInString_cases)
      case ascii
      with d have "n = 1" "r = byte (last s)" by simp_all
      moreover from ne have "drop (length s - 1) s = [last s]"
        by (metis append_butlast_last_id append_eq_conv_conj length_butlast)
      ultimately show ?thesis using True 1(4) by auto
    next
      case invalid
      with d True show ?thesis by (simp add: IsSpace_def RuneError_def)
    next
      case (rune start)
      with d have dd: "DecodeRuneInString (drop start s) = (r, n)" and len: "start + n = length s"
        by simp_all
      from len have "length s - n = start" by arith
      with len have "drop (length s - n) s = take n (drop start s)" by simp
      with DecodeRuneInString_space_prefix [OF dd True] 1(3,4) show ?thesis by force
    qed
    moreover have "set s = set (take (length s - n) s) \<union> set (drop (length s - n) s)"
      by (metis append_take_drop_id set_append)
    ultimately have "x \<in> set (take (length s - n) s)" using 1(2) by simp
    with 1(1) [OF ne d [symmetric] refl True] 1(3,4) eq show ?thesis by simp
  qed
qed

lemma TrimSpace_keeps:
  "x \<in> set s \<Longrightarrow> byte x < 0x80 \<Longrightarrow> \<not> IsSpace (byte x) \<Longrightarrow> x \<in> set (TrimSpace s)"
  unfolding TrimSpace_def by (intro TrimRightSpace_keeps TrimLeftSpace_keeps)

lemma comma_not_space: "byte (CHR '','') < 0x80 \<and> \<not> IsSpace (byte (CHR '','')) "
  by (simp add: byte_def IsSpace_def)

lemma TrimSpace_Nil [simp]: "TrimSpace [] = []"
  unfolding TrimSpace_def by (subst TrimLeftSpace.simps, subst TrimRightSpace.simps) simp

lemma TrimSpace_empty_no_comma: "TrimSpace s = [] \<Longrightarrow> CHR '','' \<notin> set s"
  using TrimSpace_keeps [of "CHR '',''" s] comma_not_space by auto



subsection \<open>Evaluating Split and TrimSpace on ASCII text\<close>

lemma Split_no_sep: "sep \<notin> set s \<Longrightarrow> Split s sep = [s]"
  by (subst Split.simps) simp

lemma Split_Nil: "Split [] sep = [[]]"
  by (simp add: Split_no_sep)

lemma Split_Cons:
  "Split (c # cs) sep =
     (if c = sep then [] # Split cs sep
      else (c # hd (Split cs sep)) # tl (Split cs sep))"
proof (cases "c = sep")
  case True
  then show ?thesis by (subst Split.simps) simp
next
  case False
  show ?thesis
  proof (cases "sep \<in> set cs")
    case True
    with False have "Split (c # cs) sep =
        (c # takeWhile (\<lambda>c. c \<noteq> sep) cs) # Split (drop 1 (dropWhile (\<lambda>c. c \<noteq> sep) cs)) sep"
      by (subst Split.simps) simp
    moreover from True have "Split cs sep =
        takeWhile (\<lambda>c. c \<noteq> sep) cs # Split (drop 1 (dropWhile (\<lambda>c. c \<noteq> sep) cs)) sep"
      by (subst Split.simps) simp
    ultimately show ?thesis using False by simp
  next
    case no: False
    with False show ?thesis by (simp add: Split_no_sep)
  qed
qed

lemma TrimLeftSpace_Nil: "TrimLeftSpace [] = []"
  by (subst TrimLeftSpace.simps) simp

lemma TrimLeftSpace_ascii:
  "byte c < 0x80 \<Longrightarrow>
   TrimLeftSpace (c # cs) = (if IsSpace (byte c) then TrimLeftSpace cs else c # cs)"
  by (subst TrimLeftSpace.simps) simp

lemma TrimRightSpace_Nil: "TrimRightSpace [] = []"
  by (subst TrimRightSpace.simps) simp

lemma TrimRightSpace_ascii:
  assumes "s \<noteq> []" "byte (last s) < 0x80"
  shows "TrimRightSpace s = (if IsSpace (byte (last s)) then TrimRightSpace (butlast s) else s)"
proof -
  from assms have "DecodeLastRuneInString s = (byte (last s), 1)"
    by (cases rule: DecodeLastRuneInString_cases) simp_all
  moreover have "take (length s - 1) s = butlast s" by (simp add: butlast_conv_take)
  ultimately show ?thesis using assms(1) by (subst TrimRightSpace.simps) simp
qed

lemmas eval_strings =
  Split_Nil Split_Cons TrimSpace_def TrimLeftSpace_Nil TrimLeftSpace_ascii
  TrimRightSpace_Nil TrimRightSpace_ascii byte_def IsSpace_def

subsection \<open>The loop of Build against the specification's words\<close>

lemma collect_eq:
  "collect hosts addrs =
     addrs @ map (\<lambda>h. \<lparr>Addr = h\<rparr>) (filter (\<lambda>h. h \<noteq> []) (map TrimSpace hosts))"
  by (induction hosts arbitrary: addrs) (simp_all add: Let_def)

lemma collect_trimmed_entries:
  "collect (Split endpoint (CHR '','')) [] = map (\<lambda>h. \<lparr>Addr = h\<rparr>) (trimmed_entries endpoint)"
  by (simp add: collect_eq trimmed_entries_def)

lemma trimmed_entries_blank:
  assumes "TrimSpace endpoint = []"
  shows "trimmed_entries endpoint = []"
proof -
  from assms have "CHR '','' \<notin> set endpoint" by (rule TrimSpace_empty_no_comma)
  then have "Split endpoint (CHR '','') = [endpoint]" by (rule Split_no_sep)
  with assms show ?thesis by (simp add: trimmed_entries_def)
qed

lemma trimmed_entries_Nil: "trimmed_entries [] = []"
  by (rule trimmed_entries_blank) simp

lemma Build_result:
  "Build endpoint cc =
     (if endpoint = [] then (Inl EmptyEndpoint, cc)
      else if trimmed_entries endpoint = [] then (Inl (NoValidAddresses endpoint), cc)
      else
        (let st = \<lparr>Addresses = map (\<lambda>h. \<lparr>Addr = h\<rparr>) (trimmed_entries endpoint)\<rparr>;
             cc' = cc\<lparr>updates := updates cc @ [st]\<rparr>
         in case UpdateState_err cc st of
              Some err \<Rightarrow> (Inl (UpdateStateFailed err), cc')
            | None \<Rightarrow> (Inr staticResolver, cc')))"
  by (simp add: Build_def Let_def collect_trimmed_entries UpdateState_def)

lemma call_id: "call c rc = rc"
  by (cases c) (simp_all add: ResolveNow_def Close_def)

lemma calls_id: "calls cs rc = rc"
  by (induction cs arbitrary: rc) (simp_all add: call_id)

text \<open>
  C1. For every endpoint with at least one entry that is not empty after trimming,
  \<open>Build\<close> hands the connection exactly one state, whose addresses are the non-empty
  trimmed entries, one address per entry, in input order (nothing dropped, nothing
  merged); if the connection accepts the state, \<open>Build\<close> returns the resolver.
\<close>

theorem Build_one_address_per_entry:
  assumes "trimmed_entries endpoint \<noteq> []"
  shows "updates (snd (Build endpoint cc)) =
           updates cc @ [\<lparr>Addresses = map (\<lambda>h. \<lparr>Addr = h\<rparr>) (trimmed_entries endpoint)\<rparr>]
       \<and> (UpdateState_err cc \<lparr>Addresses = map (\<lambda>h. \<lparr>Addr = h\<rparr>) (trimmed_entries endpoint)\<rparr> = None
            \<longrightarrow> fst (Build endpoint cc) = Inr staticResolver)"
proof -
  from assms have "endpoint \<noteq> []" using trimmed_entries_Nil by auto
  with assms show ?thesis
    by (simp add: Build_result Let_def split: option.split)
qed

theorem Build_one_address_per_entry_witness:
  "trimmed_entries '' a:1 ,b:2,, a:1 '' = [''a:1'', ''b:2'', ''a:1'']
   \<and> updates (snd (Build '' a:1 ,b:2,, a:1 '' fresh_cc)) =
       [\<lparr>Addresses = [\<lparr>Addr = ''a:1''\<rparr>, \<lparr>Addr = ''b:2''\<rparr>, \<lparr>Addr = ''a:1''\<rparr>]\<rparr>]
   \<and> fst (Build '' a:1 ,b:2,, a:1 '' fresh_cc) = Inr staticResolver"
proof -
  have e: "trimmed_entries '' a:1 ,b:2,, a:1 '' = [''a:1'', ''b:2'', ''a:1'']"
    by (simp add: trimmed_entries_def eval_strings)
  then have "trimmed_entries '' a:1 ,b:2,, a:1 '' \<noteq> []" by simp
  from Build_one_address_per_entry [OF this, of fresh_cc] e show ?thesis
    by (simp add: fresh_cc_def)
qed

text \<open>
  C2. \<open>Build\<close> fails with an \<open>InvalidTarget\<close> error exactly when the endpoint is empty
  or white space only, or no entry is left after splitting at the commas and trimming;
  and when it fails so, the connection is as it was: no state has been handed to it.
\<close>

theorem Build_InvalidTarget_iff:
  "((\<exists>e. fst (Build endpoint cc) = Inl e \<and> InvalidTarget e)
      \<longleftrightarrow> (endpoint = [] \<or> TrimSpace endpoint = [] \<or> trimmed_entries endpoint = []))
   \<and> ((\<exists>e. fst (Build endpoint cc) = Inl e \<and> InvalidTarget e) \<longrightarrow> snd (Build endpoint cc) = cc)"
proof -
  have "endpoint = [] \<or> TrimSpace endpoint = [] \<or> trimmed_entries endpoint = []
          \<longleftrightarrow> trimmed_entries endpoint = []"
    using trimmed_entries_Nil trimmed_entries_blank by auto
  moreover have "endpoint = [] \<Longrightarrow> trimmed_entries endpoint = []"
    using trimmed_entries_Nil by simp
  ultimately show ?thesis
    by (auto simp: Build_result Let_def split: option.splits)
qed

theorem Build_InvalidTarget_iff_witness:
  "fst (Build [] fresh_cc) = Inl EmptyEndpoint \<and> snd (Build [] fresh_cc) = fresh_cc
   \<and> (\<exists>e. fst (Build ''  '' fresh_cc) = Inl e \<and> InvalidTarget e)
   \<and> snd (Build ''  '' fresh_cc) = fresh_cc
   \<and> (\<exists>e. fst (Build '' , '' fresh_cc) = Inl e \<and> InvalidTarget e)
   \<and> snd (Build '' , '' fresh_cc) = fresh_cc
   \<and> \<not> (\<exists>e. fst (Build ''a:1'' fresh_cc) = Inl e \<and> InvalidTarget e)"
proof -
  have 1: "TrimSpace ''  '' = []" by (simp add: eval_strings)
  have 2: "trimmed_entries '' , '' = []" by (simp add: trimmed_entries_def eval_strings)
  have 3: "TrimSpace ''a:1'' \<noteq> []" "trimmed_entries ''a:1'' \<noteq> []"
    by (simp_all add: trimmed_entries_def eval_strings)
  have 4: "fst (Build [] fresh_cc) = Inl EmptyEndpoint" by (simp add: Build_def)
  from Build_InvalidTarget_iff [of "[]" fresh_cc] Build_InvalidTarget_iff [of "''  ''" fresh_cc]
    Build_InvalidTarget_iff [of "'' , ''" fresh_cc] Build_InvalidTarget_iff [of "''a:1''" fresh_cc]
    1 2 3 4
  show ?thesis by simp
qed

text \<open>
  C9. When \<open>Build\<close> returns a resolver, it has handed the connection exactly one state,
  before returning; and whatever sequence of \<open>ResolveNow\<close> and \<open>Close\<close> calls follows on
  the returned resolver, the resolver and the connection, with the states published to
  it, stay as \<open>Build\<close> left them.
\<close>

theorem static_publishes_once:
  assumes "fst (Build endpoint cc) = Inr r"
  shows "(\<exists>st. updates (snd (Build endpoint cc)) = updates cc @ [st])
       \<and> length (updates (snd (calls cs (r, snd (Build endpoint cc))))) = length (updates cc) + 1
       \<and> calls cs (r, snd (Build endpoint cc)) = (r, snd (Build endpoint cc))"
  using assms
  by (simp add: calls_id) (auto simp: Build_result Let_def split: if_splits option.splits)

theorem static_publishes_once_witness:
  "fst (Build ''a:1,b:2'' fresh_cc) = Inr staticResolver
   \<and> updates (snd (calls [CallResolveNow, CallClose, CallResolveNow]
         (staticResolver, snd (Build ''a:1,b:2'' fresh_cc)))) =
       [\<lparr>Addresses = [\<lparr>Addr = ''a:1''\<rparr>, \<lparr>Addr = ''b:2''\<rparr>]\<rparr>]"
proof -
  have e: "trimmed_entries ''a:1,b:2'' = [''a:1'', ''b:2'']"
    by (simp add: trimmed_entries_def eval_strings)
  then have b: "fst (Build ''a:1,b:2'' fresh_cc) = Inr staticResolver"
    by (simp add: Build_result fresh_cc_def)
  have u: "updates (snd (Build ''a:1,b:2'' fresh_cc)) =
      [\<lparr>Addresses = [\<lparr>Addr = ''a:1''\<rparr>, \<lparr>Addr = ''b:2''\<rparr>]\<rparr>]"
    using e by (simp add: Build_result fresh_cc_def)
  from static_publishes_once [OF b, of "[CallResolveNow, CallClose, CallResolveNow]"] b u
  show ?thesis by simp
qed

section \<open>The registry, the periodic resolver and the health service: proofs\<close>

text \<open>
  C3 (the code at a \<open>dns\<close> target). \<open>RegisterResolvers\<close> puts the static builder under
  \<open>static\<close> and leaves every other scheme as it found it: on the library's registry,
  \<open>dns\<close> is still answered by the library's own builder after it, not by
  \<open>periodicDNSBuilder\<close> with \<open>defaultReResolveInterval\<close>.
\<close>

theorem RegisterResolvers_leaves_dns:
  "Get (RegisterResolvers reg) ''dns'' = Get reg ''dns''
   \<and> Get (RegisterResolvers reg) ''static'' = Some staticResolverBuilder
   \<and> Get (RegisterResolvers library_registry) ''dns'' = Some (libraryBuilder ''dns'')
   \<and> Get (RegisterResolvers library_registry) ''dns''
        \<noteq> Some (periodicDNSBuilder defaultReResolveInterval)"
  by (simp add: RegisterResolvers_def Register_def Get_def StaticScheme_def library_registry_def)

subsection \<open>Close runs its function once\<close>

text \<open>
  In every state the code can reach, \<open>done\<close> is closed exactly when the \<open>Once\<close> has run,
  the inner resolver has been closed once if it has and never if it has not, and the
  loop has returned only if \<open>done\<close> is closed.
\<close>

definition close_inv :: "PeriodicDNSResolver \<Rightarrow> bool" where
  "close_inv r \<longleftrightarrow>
     done_closed r = once_done r
     \<and> count_list (inner_calls r) InnerClose = (if once_done r then 1 else 0)
     \<and> (loop r = Returned \<longrightarrow> done_closed r)"

lemma close_inv_new: "close_inv (new_resolver i)"
  by (simp add: close_inv_def new_resolver_def)

lemma step_close_inv:
  assumes "close_inv r"
  shows "step e r \<noteq> Inl CloseOfClosedChannel"
    and "step e r = Inr r' \<Longrightarrow> close_inv r'"
    and "step e r = Inr r' \<Longrightarrow> once_done r' = (once_done r \<or> e = Call_Close)"
  using assms
  by (cases e; auto simp: close_inv_def periodic_Close_def periodic_ResolveNow_def
      split: if_splits)+

lemma run_close_inv:
  assumes "close_inv r"
  shows "run es r \<noteq> Inl CloseOfClosedChannel
       \<and> (\<forall>r'. run es r = Inr r' \<longrightarrow>
            close_inv r' \<and> once_done r' = (once_done r \<or> Call_Close \<in> set es))"
  using assms
proof (induction es arbitrary: r)
  case Nil
  then show ?case by simp
next
  case (Cons e es)
  show ?case
  proof (cases "step e r")
    case (Inl p)
    with step_close_inv(1) [OF Cons.prems, of e] show ?thesis by auto
  next
    case (Inr r1)
    from step_close_inv(2,3) [OF Cons.prems Inr]
    have "close_inv r1" "once_done r1 = (once_done r \<or> e = Call_Close)" by simp_all
    with Cons.IH [of r1] Inr show ?thesis by auto
  qed
qed

lemma periodic_Close_closed: "once_done r \<Longrightarrow> periodic_Close r = Inr r"
  by (simp add: periodic_Close_def)

text \<open>
  C5. Take the resolver as \<open>Build\<close> makes it and let anything happen to it, in any order:
  calls of \<open>ResolveNow\<close> and \<open>Close\<close>, steps of the refresh loop. No \<open>Close\<close> ever panics
  by closing the channel twice. In the state reached, the inner resolver has been closed
  exactly once if \<open>Close\<close> was called at all (and never otherwise), however often
  \<open>Close\<close> was called; and every further \<open>Close\<close> returns with the state unchanged.
\<close>

theorem Close_idempotent:
  "run es (new_resolver i) \<noteq> Inl CloseOfClosedChannel
   \<and> (\<forall>r. run es (new_resolver i) = Inr r \<longrightarrow>
         count_list (inner_calls r) InnerClose = (if Call_Close \<in> set es then 1 else 0)
       \<and> done_closed r = (Call_Close \<in> set es)
       \<and> (Call_Close \<in> set es \<longrightarrow> periodic_Close r = Inr r))"
proof -
  from run_close_inv [OF close_inv_new, of es i]
  have 1: "run es (new_resolver i) \<noteq> Inl CloseOfClosedChannel"
    and 2: "\<And>r. run es (new_resolver i) = Inr r \<Longrightarrow>
        close_inv r \<and> once_done r = (Call_Close \<in> set es)"
    by (simp_all add: new_resolver_def)
  show ?thesis
  proof (intro conjI allI impI)
    show "run es (new_resolver i) \<noteq> Inl CloseOfClosedChannel" by (rule 1)
  next
    fix r assume "run es (new_resolver i) = Inr r"
    from 2 [OF this] show "count_list (inner_calls r) InnerClose = (if Call_Close \<in> set es then 1 else 0)"
      by (simp add: close_inv_def)
  next
    fix r assume "run es (new_resolver i) = Inr r"
    from 2 [OF this] show "done_closed r = (Call_Close \<in> set es)"
      by (simp add: close_inv_def)
  next
    fix r assume "run es (new_resolver i) = Inr r" "Call_Close \<in> set es"
    with 2 show "periodic_Close r = Inr r" by (simp add: periodic_Close_closed)
  qed
qed

theorem Close_idempotent_witness:
  "run [Loop_Start, Call_Close, Call_Close, Loop_Tick, Call_Close] (new_resolver defaultReResolveInterval)
     = Inr \<lparr>interval = defaultReResolveInterval, inner_calls = [InnerClose, InnerResolveNow],
            done_closed = True, once_done = True, loop = Running\<rparr>
   \<and> count_list [InnerClose, InnerResolveNow] InnerClose = 1
   \<and> periodic_Close \<lparr>interval = defaultReResolveInterval, inner_calls = [InnerClose, InnerResolveNow],
            done_closed = True, once_done = True, loop = Running\<rparr>
     = Inr \<lparr>interval = defaultReResolveInterval, inner_calls = [InnerClose, InnerResolveNow],
            done_closed = True, once_done = True, loop = Running\<rparr>"
proof -
  have r: "run [Loop_Start, Call_Close, Call_Close, Loop_Tick, Call_Close] (new_resolver defaultReResolveInterval)
     = Inr \<lparr>interval = defaultReResolveInterval, inner_calls = [InnerClose, InnerResolveNow],
            done_closed = True, once_done = True, loop = Running\<rparr>"
    by (simp add: new_resolver_def periodic_Close_def defaultReResolveInterval_def Second_def)
  from Close_idempotent [of "[Loop_Start, Call_Close, Call_Close, Loop_Tick, Call_Close]"
      defaultReResolveInterval] r
  show ?thesis by simp
qed

subsection \<open>ResolveNow and ticks on a closed resolver\<close>

text \<open>
  C6 as stated fails: after \<open>Close\<close>, a call of \<open>ResolveNow\<close> still reaches the inner
  resolver. Here the resolver is built with the default interval, its loop starts, it is
  closed, and \<open>ResolveNow\<close> is called: the inner resolver sees \<open>ResolveNow\<close> after its
  \<open>Close\<close>.
\<close>

theorem ResolveNow_after_Close_counterexample:
  "run [Loop_Start, Call_Close, Call_ResolveNow] (new_resolver defaultReResolveInterval)
     = Inr \<lparr>interval = defaultReResolveInterval, inner_calls = [InnerClose, InnerResolveNow],
            done_closed = True, once_done = True, loop = Running\<rparr>"
  by (simp add: new_resolver_def periodic_Close_def periodic_ResolveNow_def
      defaultReResolveInterval_def Second_def)

lemma run_loop_events_Returned:
  "loop r = Returned \<Longrightarrow> \<forall>e \<in> set es. loop_event e \<Longrightarrow> run es r = Inr r"
proof (induction es)
  case Nil
  then show ?case by simp
next
  case (Cons e es)
  then have "step e r = Inr r" by (cases e) simp_all
  with Cons show ?case by simp
qed

text \<open>
  C6 as amended. Once the resolver is closed, the \<open>done\<close> case of the loop's \<open>select\<close>
  can be taken, and the loop returns when it is; from then on no step of the loop, so no
  timer tick, reaches the inner resolver: the state stays as it is. A call of
  \<open>ResolveNow\<close> is passed on to the inner resolver in every state, closed or not.
\<close>

theorem closed_resolver_ticks_stop:
  "(done_closed r \<and> loop r = Running \<longrightarrow> step Loop_Done r = Inr (r\<lparr>loop := Returned\<rparr>))
   \<and> (loop r = Returned \<longrightarrow> (\<forall>es. (\<forall>e \<in> set es. loop_event e) \<longrightarrow> run es r = Inr r))
   \<and> step Call_ResolveNow r = Inr (r\<lparr>inner_calls := inner_calls r @ [InnerResolveNow]\<rparr>)"
  by (auto simp: run_loop_events_Returned periodic_ResolveNow_def)

theorem closed_resolver_ticks_stop_witness:
  "run [Loop_Start, Loop_Tick, Call_Close, Loop_Done] (new_resolver defaultReResolveInterval)
     = Inr \<lparr>interval = defaultReResolveInterval, inner_calls = [InnerResolveNow, InnerClose],
            done_closed = True, once_done = True, loop = Returned\<rparr>
   \<and> run [Loop_Tick, Loop_Tick, Loop_Done, Loop_Start]
        \<lparr>interval = defaultReResolveInterval, inner_calls = [InnerResolveNow, InnerClose],
            done_closed = True, once_done = True, loop = Returned\<rparr>
     = Inr \<lparr>interval = defaultReResolveInterval, inner_calls = [InnerResolveNow, InnerClose],
            done_closed = True, once_done = True, loop = Returned\<rparr>"
proof -
  let ?r = "\<lparr>interval = defaultReResolveInterval, inner_calls = [InnerResolveNow, InnerClose],
            done_closed = True, once_done = True, loop = Returned\<rparr>"
  have 1: "run [Loop_Start, Loop_Tick, Call_Close, Loop_Done] (new_resolver defaultReResolveInterval)
      = Inr ?r"
    by (simp add: new_resolver_def periodic_Close_def defaultReResolveInterval_def Second_def)
  have "loop ?r = Returned" by simp
  moreover have "\<forall>e \<in> set [Loop_Tick, Loop_Tick, Loop_Done, Loop_Start]. loop_event e" by simp
  ultimately have "run [Loop_Tick, Loop_Tick, Loop_Done, Loop_Start] ?r = Inr ?r"
    using closed_resolver_ticks_stop [of ?r] by blast
  with 1 show ?thesis by simp
qed

subsection \<open>The health service\<close>

text \<open>
  C8. Whenever \<open>RegisterHealthServer\<close> returns, the health service is registered on the
  server, and the health server it returns answers \<open>SERVING\<close> both for the empty service
  name and for \<open>sharding.v1.ShardingService\<close>, with no later call of
  \<open>SetServingStatus\<close>. It does return for a server that is not serving yet and has no
  health service.
\<close>

theorem RegisterHealthServer_SERVING:
  "(\<forall>server' hs. RegisterHealthServer server = Inr (server', hs) \<longrightarrow>
       ''grpc.health.v1.Health'' \<in> set (services server')
     \<and> Check hs [] = Inr SERVING
     \<and> Check hs ''sharding.v1.ShardingService'' = Inr SERVING)
   \<and> (\<not> serve server \<and> ''grpc.health.v1.Health'' \<notin> set (services server) \<longrightarrow>
        (\<exists>server' hs. RegisterHealthServer server = Inr (server', hs)))"
  by (auto simp: RegisterHealthServer_def RegisterService_def NewServer_def SetServingStatus_def
      Check_def Let_def split: if_splits)

theorem RegisterHealthServer_SERVING_witness:
  "(\<exists>server' hs. RegisterHealthServer \<lparr>serve = False, services = [''sharding.v1.ShardingService'']\<rparr>
       = Inr (server', hs)
     \<and> services server' = [''sharding.v1.ShardingService'', ''grpc.health.v1.Health'']
     \<and> Check hs [] = Inr SERVING
     \<and> Check hs ''sharding.v1.ShardingService'' = Inr SERVING)"
proof -
  let ?srv = "\<lparr>serve = False, services = [''sharding.v1.ShardingService'']\<rparr>"
  have "\<not> serve ?srv \<and> ''grpc.health.v1.Health'' \<notin> set (services ?srv)" by simp
  with RegisterHealthServer_SERVING [of ?srv]
  obtain server' hs where r: "RegisterHealthServer ?srv = Inr (server', hs)"
    and c: "Check hs [] = Inr SERVING" "Check hs ''sharding.v1.ShardingService'' = Inr SERVING"
    by blast
  from r have "services server' = [''sharding.v1.ShardingService'', ''grpc.health.v1.Health'']"
    by (auto simp: RegisterHealthServer_def RegisterService_def Let_def)
  with r c show ?thesis by blast
qed

section \<open>The round-robin policy: proofs\<close>

lemma hits_add: "hits k c (m + n) i = hits k c m i + hits k (c + m) n i"
proof -
  let ?P = "\<lambda>j. (c + j) mod k = i"
  have "[0..<m + n] = [0..<m] @ [m..<m + n]"
    by (rule upt_add_eq_append) simp
  also have "[m..<m + n] = map (\<lambda>j. j + m) [0..<n]"
    by (simp only: map_add_upt add.commute [of n m])
  finally have split: "[0..<m + n] = [0..<m] @ map (\<lambda>j. j + m) [0..<n]" .
  have "length (filter ?P [0..<m + n]) =
      length (filter ?P [0..<m]) + length (filter ?P (map (\<lambda>j. j + m) [0..<n]))"
    by (simp only: split filter_append length_append)
  also have "length (filter ?P (map (\<lambda>j. j + m) [0..<n])) =
      length (filter (?P \<circ> (\<lambda>j. j + m)) [0..<n])"
    by (simp only: filter_map length_map)
  also have "?P \<circ> (\<lambda>j. j + m) = (\<lambda>j. (c + m + j) mod k = i)"
    by (rule ext) (simp add: ac_simps)
  finally show ?thesis by (simp only: hits_def)
qed

lemma hits_one: "hits k c (Suc 0) i = (if c mod k = i then 1 else 0)"
  by (simp add: hits_def)

lemma hits_zero_window: "hits k c 0 i = 0"
  by (simp add: hits_def)

lemma hits_period_0:
  assumes "i < k"
  shows "hits k 0 k i = 1"
proof -
  have "filter (\<lambda>j. (0 + j) mod k = i) [0..<k] = filter (\<lambda>j. j = i) [0..<k]"
    by (rule filter_cong) auto
  moreover have "length (filter (\<lambda>j. j = i) [0..<k]) = card ({j. j = i} \<inter> set [0..<k])"
    by (rule distinct_length_filter) simp
  moreover from assms have "{j. j = i} \<inter> set [0..<k] = {i}" by auto
  ultimately show ?thesis by (simp add: hits_def)
qed

lemma hits_period:
  assumes "i < k"
  shows "hits k c k i = 1"
proof (induction c)
  case 0
  from assms show ?case by (rule hits_period_0)
next
  case (Suc c)
  have "hits k c (Suc 0 + k) i = hits k c (Suc 0) i + hits k (c + Suc 0) k i" by (rule hits_add)
  moreover have "hits k c (k + Suc 0) i = hits k c k i + hits k (c + k) (Suc 0) i" by (rule hits_add)
  moreover have "hits k (c + k) (Suc 0) i = hits k c (Suc 0) i" by (simp add: hits_one)
  ultimately have "hits k (c + Suc 0) k i = hits k c k i" by simp
  with Suc show ?case by simp
qed

lemma hits_short:
  assumes "i < k" "m \<le> k"
  shows "hits k c m i \<le> 1"
proof -
  from assms(2) have "hits k c k i = hits k c m i + hits k (c + m) (k - m) i"
    using hits_add [of k c m "k - m" i] by simp
  with hits_period [OF assms(1), of c] show ?thesis by simp
qed

lemma hits_periods:
  assumes "i < k"
  shows "hits k c (q * k + r) i = q + hits k (c + q * k) r i"
proof (induction q arbitrary: c)
  case 0
  show ?case by simp
next
  case (Suc q)
  have "hits k c (Suc q * k + r) i = hits k c (k + (q * k + r)) i" by (simp add: add.assoc)
  also have "\<dots> = hits k c k i + hits k (c + k) (q * k + r) i" by (rule hits_add)
  also have "\<dots> = 1 + (q + hits k (c + k + q * k) r i)"
    by (simp add: hits_period [OF assms] Suc.IH)
  finally show ?case by (simp add: add.assoc)
qed

lemma hits_bounds:
  assumes "i < k"
  shows "m div k \<le> hits k c m i" and "hits k c m i \<le> m div k + 1"
    and "k dvd m \<Longrightarrow> hits k c m i = m div k"
proof -
  have m: "m = m div k * k + m mod k" by simp
  have eq: "hits k c m i = m div k + hits k (c + m div k * k) (m mod k) i"
    using hits_periods [OF assms, of c "m div k" "m mod k"] by simp
  from assms have "m mod k \<le> k" by simp
  from hits_short [OF assms this] have le: "hits k (c + m div k * k) (m mod k) i \<le> 1" .
  show "m div k \<le> hits k c m i" using eq by simp
  show "hits k c m i \<le> m div k + 1" using eq le by simp
  show "hits k c m i = m div k" if "k dvd m"
  proof -
    from that have "m mod k = 0" by simp
    with eq show ?thesis by (simp add: hits_zero_window)
  qed
qed

lemma dispatches_eq:
  assumes "live status addrs \<noteq> []"
  shows "dispatches m status addrs c =
           map (\<lambda>j. Inr (live status addrs ! ((c + 1 + j) mod length (live status addrs)))) [0..<m]"
proof (induction m arbitrary: c)
  case 0
  show ?case by simp
next
  case (Suc m)
  let ?l = "live status addrs" and ?k = "length (live status addrs)"
  have "dispatches (Suc m) status addrs c =
      Inr (?l ! ((c + 1) mod ?k)) # dispatches m status addrs ((c + 1) mod ?k)"
    using assms by (simp add: dispatch_def Let_def)
  also have "dispatches m status addrs ((c + 1) mod ?k) =
      map (\<lambda>j. Inr (?l ! (((c + 1) mod ?k + 1 + j) mod ?k))) [0..<m]"
    by (rule Suc.IH)
  also have "\<dots> = map (\<lambda>j. Inr (?l ! ((c + 1 + Suc j) mod ?k))) [0..<m]"
  proof (rule map_cong [OF refl])
    fix j
    have "((c + 1) mod ?k + (1 + j)) mod ?k = (c + 1 + (1 + j)) mod ?k"
      by (rule mod_add_left_eq)
    then show "Inr (?l ! (((c + 1) mod ?k + 1 + j) mod ?k)) = Inr (?l ! ((c + 1 + Suc j) mod ?k))"
      by (simp add: add.assoc)
  qed
  also have "\<dots> = map (\<lambda>j. Inr (?l ! ((c + 1 + j) mod ?k))) (map Suc [0..<m])"
    by (simp add: o_def)
  finally show ?case
    by (simp add: map_Suc_upt upt_conv_Cons del: upt_Suc)
qed

lemma count_dispatches:
  assumes "distinct addrs" "i < length (live status addrs)"
  shows "count_list (dispatches m status addrs c) (Inr (live status addrs ! i)) =
           hits (length (live status addrs)) (c + 1) m i"
proof -
  let ?l = "live status addrs" and ?k = "length (live status addrs)"
  from assms(2) have ne: "?l \<noteq> []" by (cases ?l) simp_all
  from assms(1) have d: "distinct ?l" by (simp add: live_def)
  have "count_list (dispatches m status addrs c) (Inr (?l ! i)) =
      length (filter (\<lambda>j. Inr (?l ! i) = (Inr (?l ! ((c + 1 + j) mod ?k)) :: dispatch_error + string)) [0..<m])"
    by (simp add: dispatches_eq [OF ne] count_list_eq_length_filter filter_map o_def)
  also have "filter (\<lambda>j. Inr (?l ! i) = (Inr (?l ! ((c + 1 + j) mod ?k)) :: dispatch_error + string)) [0..<m]
      = filter (\<lambda>j. (c + 1 + j) mod ?k = i) [0..<m]"
  proof (rule filter_cong [OF refl])
    fix j
    from ne have "0 < ?k" by simp
    then have "(c + 1 + j) mod ?k < ?k" by (rule mod_less_divisor)
    with d assms(2) show "(Inr (?l ! i) = (Inr (?l ! ((c + 1 + j) mod ?k)) :: dispatch_error + string))
        = ((c + 1 + j) mod ?k = i)"
      by (auto simp: nth_eq_iff_index_eq)
  qed
  finally show ?thesis by (simp add: hits_def)
qed

text \<open>
  C4. Against a stable set of distinct addresses of which \<open>K\<close> are healthy, take any
  window of \<open>M\<close> consecutive dispatches, from any cursor. No dispatch fails; every healthy
  address is selected \<open>M div K\<close> or \<open>M div K + 1\<close> times, so the counts of two healthy
  addresses differ by at most 1; and when \<open>M\<close> is a multiple of \<open>K\<close>, every healthy
  address is selected exactly \<open>M div K\<close> times.
\<close>

theorem round_robin_distribution:
  assumes "distinct addrs" "a \<in> set (live status addrs)" "b \<in> set (live status addrs)"
  shows "Inl NoAvailableEndpoint \<notin> set (dispatches M status addrs c)
       \<and> count_list (dispatches M status addrs c) (Inr a)
           \<le> count_list (dispatches M status addrs c) (Inr b) + 1
       \<and> (length (live status addrs) dvd M \<longrightarrow>
            count_list (dispatches M status addrs c) (Inr a) = M div length (live status addrs))"
proof -
  let ?l = "live status addrs" and ?k = "length (live status addrs)"
  from assms(2) obtain i where i: "i < ?k" "a = ?l ! i" by (auto simp: in_set_conv_nth)
  from assms(3) obtain j where j: "j < ?k" "b = ?l ! j" by (auto simp: in_set_conv_nth)
  from i(1) have ne: "?l \<noteq> []" by (cases ?l) simp_all
  have ca: "count_list (dispatches M status addrs c) (Inr a) = hits ?k (c + 1) M i"
    using count_dispatches [OF assms(1) i(1)] i(2) by simp
  have cb: "count_list (dispatches M status addrs c) (Inr b) = hits ?k (c + 1) M j"
    using count_dispatches [OF assms(1) j(1)] j(2) by simp
  have "Inl NoAvailableEndpoint \<notin> set (dispatches M status addrs c)"
    by (auto simp: dispatches_eq [OF ne])
  moreover have "hits ?k (c + 1) M i \<le> hits ?k (c + 1) M j + 1"
    using hits_bounds(2) [OF i(1), of "c + 1" M] hits_bounds(1) [OF j(1), of M "c + 1"] by simp
  moreover have "?k dvd M \<longrightarrow> hits ?k (c + 1) M i = M div ?k"
    using hits_bounds(3) [OF i(1)] by simp
  ultimately show ?thesis using ca cb by simp
qed

text \<open>Three healthy addresses, 900 dispatches: each address is selected 300 times.\<close>

theorem round_robin_distribution_witness:
  "count_list (dispatches 900 (\<lambda>a. SERVING) [''h1:50051'', ''h2:50051'', ''h3:50051''] 0)
       (Inr ''h1:50051'') = 300
   \<and> count_list (dispatches 900 (\<lambda>a. SERVING) [''h1:50051'', ''h2:50051'', ''h3:50051''] 0)
       (Inr ''h2:50051'') = 300
   \<and> count_list (dispatches 900 (\<lambda>a. SERVING) [''h1:50051'', ''h2:50051'', ''h3:50051''] 0)
       (Inr ''h3:50051'') = 300"
proof -
  let ?addrs = "[''h1:50051'', ''h2:50051'', ''h3:50051'']"
  have l: "live (\<lambda>a. SERVING) ?addrs = ?addrs" by (simp add: live_def)
  have d: "distinct ?addrs" by simp
  have 1: "''h1:50051'' \<in> set (live (\<lambda>a. SERVING) ?addrs)"
    and 2: "''h2:50051'' \<in> set (live (\<lambda>a. SERVING) ?addrs)"
    and 3: "''h3:50051'' \<in> set (live (\<lambda>a. SERVING) ?addrs)"
    by (simp_all add: l)
  have k: "length (live (\<lambda>a. SERVING) ?addrs) = 3" by (simp add: l)
  have dv: "length (live (\<lambda>a. SERVING) ?addrs) dvd (900::nat)" unfolding k by simp
  have q: "(900::nat) div length (live (\<lambda>a. SERVING) ?addrs) = 300" unfolding k by simp
  have "count_list (dispatches 900 (\<lambda>a. SERVING) ?addrs 0) (Inr ''h1:50051'')
      = 900 div length (live (\<lambda>a. SERVING) ?addrs)"
    using round_robin_distribution [OF d 1 1, of 900 0] dv by blast
  moreover have "count_list (dispatches 900 (\<lambda>a. SERVING) ?addrs 0) (Inr ''h2:50051'')
      = 900 div length (live (\<lambda>a. SERVING) ?addrs)"
    using round_robin_distribution [OF d 2 2, of 900 0] dv by blast
  moreover have "count_list (dispatches 900 (\<lambda>a. SERVING) ?addrs 0) (Inr ''h3:50051'')
      = 900 div length (live (\<lambda>a. SERVING) ?addrs)"
    using round_robin_distribution [OF d 3 3, of 900 0] dv by blast
  ultimately show ?thesis by (simp only: q simp_thms)
qed

end
